theory Spec2Isabelle
  imports Main
begin

section \<open>Command-line flags of the Taqueria configuration (internal/compose/taqconfig.go)\<close>

text \<open>
  Go strings are byte sequences, modelled as \<open>string\<close>. The process arguments
  \<open>os.Args\<close> are a global of the Go runtime; every function that reads them takes the
  argument list as its first parameter. Indexing a slice out of range panics in Go; the
  panic is the value \<open>Panic\<close>.
\<close>

datatype 'a go_result = Panic | Value 'a

definition HasPrefix :: "string \<Rightarrow> string \<Rightarrow> bool" where
  "HasPrefix s prefix = (take (length prefix) s = prefix)"

definition TrimPrefix :: "string \<Rightarrow> string \<Rightarrow> string" where
  "TrimPrefix s prefix = (if HasPrefix s prefix then drop (length prefix) s else s)"

text \<open>The test both loops apply to an argument:
  \<^verbatim>\<open>strings.HasPrefix(arg, "-") && strings.TrimPrefix(arg, "-") == flag\<close>.\<close>

definition names_flag :: "string \<Rightarrow> string \<Rightarrow> bool" where
  "names_flag arg flag = (HasPrefix arg ''-'' \<and> TrimPrefix arg ''-'' = flag)"

fun IsFlagSpecified :: "string list \<Rightarrow> string \<Rightarrow> bool" where
  "IsFlagSpecified [] flag = False"
| "IsFlagSpecified (arg # rest) flag =
     (if names_flag arg flag then True else IsFlagSpecified rest flag)"

text \<open>\<^verbatim>\<open>os.Args[i]\<close>: the element, or the run-time panic when \<open>i\<close> is out of range.\<close>

definition index_args :: "string list \<Rightarrow> nat \<Rightarrow> string go_result" where
  "index_args Args i = (if i < length Args then Value (Args ! i) else Panic)"

text \<open>
  \<^verbatim>\<open>for i, arg := range os.Args { if ... { return os.Args[i+1] } }; return ""\<close>.
  The loop is a recursion over the arguments still to visit, with the index \<open>i\<close> of the
  first of them; the whole list \<open>Args\<close> is kept for the access at \<open>i + 1\<close>.
\<close>

fun getFlagValue_range :: "string list \<Rightarrow> string list \<Rightarrow> nat \<Rightarrow> string \<Rightarrow> string go_result" where
  "getFlagValue_range Args [] i flag = Value ''''"
| "getFlagValue_range Args (arg # rest) i flag =
     (if names_flag arg flag then index_args Args (i + 1)
      else getFlagValue_range Args rest (i + 1) flag)"

definition getFlagValue :: "string list \<Rightarrow> string \<Rightarrow> string go_result" where
  "getFlagValue Args flag = getFlagValue_range Args Args 0 flag"

section \<open>The Taqueria configuration (internal/compose/taqconfig.go)\<close>

text \<open>
  The structs the two JSON documents decode into. A Go map is an association list, in
  the order a \<open>range\<close> statement enumerates it. A field name that two structs share
  carries the struct's name after it.
\<close>

record TaqAccountBalance =
  Amount :: string
  Units :: string

record TaqAccount =
  Balance :: TaqAccountBalance

record TaqEnvironment =
  Type :: string
  Label :: string
  RpcUrl :: string

record TaqPlugin =
  Type_plugin :: string
  Name :: string

record TaqConfig =
  Version :: string
  Language :: string
  ArtifactsDir :: string
  ContractsDir :: string
  Accounts :: "(string \<times> TaqAccount) list"
  EnvironmentDefault :: string
  Environments :: "(string \<times> TaqEnvironment) list"
  Plugins :: "TaqPlugin list"

record TaqEnvAccount =
  EncryptedKey :: string
  PublicKeyHash :: string
  SecretKey :: string

record TaqConfigEnv =
  Accounts_env :: "(string \<times> TaqEnvAccount) list"
  AccountDefault :: string
  RpcUrl_env :: string

record TaqConfigSet =
  TaqConfig_set :: TaqConfig
  TaqConfigEnv_set :: TaqConfigEnv

text \<open>A Go \<open>error\<close> is its message; \<open>nil\<close> is \<open>None\<close>.\<close>

type_synonym error = string

text \<open>
  \<open>Account\<close> and \<open>Context\<close> are declared in another file of package \<open>compose\<close>. The
  functions here use the fields \<open>Address\<close>, \<open>PrivateKey\<close> and \<open>Id\<close> of an account and
  \<open>BaseAccount\<close> and \<open>Accounts\<close> of a context; the rest of a context is reached only
  through \<open>AddVariable\<close> and is the component \<open>Variables\<close> of a type left open. Keys
  and addresses are types of package \<open>tezos\<close>, left open as well.
\<close>

record ('key, 'addr) Account =
  Address :: 'addr
  PrivateKey :: 'key
  Id :: int

record ('key, 'addr, 'v) Context =
  BaseAccount :: "('key, 'addr) Account"
  Accounts_ctx :: "'addr \<rightharpoonup> ('key, 'addr) Account"
  Variables :: 'v

text \<open>
  What the functions call and this file does not define, taken as parameters:
  \<open>json.Unmarshal\<close> into each of the two structs (\<open>None\<close> is an error),
  \<open>tezos.ParsePrivateKey\<close> with both of its results (the key and the error),
  the methods \<open>Address\<close> of a key and \<open>String\<close> of an address, \<open>NewContext\<close>, and the
  method \<open>AddVariable\<close> of a context.
\<close>

record ('key, 'addr, 'v) collaborators =
  Unmarshal :: "string \<Rightarrow> TaqConfig option"
  Unmarshal_env :: "string \<Rightarrow> TaqConfigEnv option"
  ParsePrivateKey :: "string \<Rightarrow> 'key \<times> error option"
  Address_of :: "'key \<Rightarrow> 'addr"
  String_of :: "'addr \<Rightarrow> string"
  NewContext :: "('key, 'addr, 'v) Context"
  AddVariable :: "string \<Rightarrow> string \<Rightarrow> 'v \<Rightarrow> 'v"

definition ParseTaqConfig ::
    "('key, 'addr, 'v) collaborators \<Rightarrow> string \<Rightarrow> string \<Rightarrow> error + TaqConfigSet" where
  "ParseTaqConfig x taqConfigJSON taqEnvConfigJSON =
     (if taqConfigJSON = '''' then Inl ''E_TAQ_ERROR: Missing taqueria project configuration''
      else if taqEnvConfigJSON = ''''
      then Inl ''E_TAQ_ERROR: Missing taqueria local environment configuration''
      else case Unmarshal x taqConfigJSON of
             None \<Rightarrow> Inl ''E_TAQ_ERROR: Invalid taqueria project configuration''
           | Some config \<Rightarrow>
               (case Unmarshal_env x taqEnvConfigJSON of
                  None \<Rightarrow> Inl ''E_TAQ_ERROR: Invalid taqueria local environment configuration''
                | Some envConfig \<Rightarrow>
                    Inr \<lparr>TaqConfig_set = config, TaqConfigEnv_set = envConfig\<rparr>))"

definition isDefaultAccount :: "string \<Rightarrow> string \<Rightarrow> bool" where
  "isDefaultAccount accountName defaultAccountName = (accountName = defaultAccountName)"

definition getAccountId :: "string \<Rightarrow> string \<Rightarrow> int \<Rightarrow> int" where
  "getAccountId accountName defaultAccountName nextId =
     (if isDefaultAccount accountName defaultAccountName then - 1 else nextId)"

text \<open>
  The loop of \<open>mapTaqEnvAccountToContextAccount\<close>, with \<open>count\<close>. The state is the
  context together with the lines \<open>println\<close> has written. After
  \<^verbatim>\<open>sk, err := tezos.ParsePrivateKey(str_sk)\<close> an error is printed and the body
  goes on with \<open>sk\<close>.
\<close>

fun map_accounts ::
    "('key, 'addr, 'v) collaborators \<Rightarrow> string \<Rightarrow> (string \<times> TaqEnvAccount) list \<Rightarrow> int \<Rightarrow>
     error list \<times> ('key, 'addr, 'v) Context \<Rightarrow> error list \<times> ('key, 'addr, 'v) Context" where
  "map_accounts x taqAccountDefault [] count st = st"
| "map_accounts x taqAccountDefault ((accountName, taqAccount) # rest) count (printed, ctx) =
     (let str_sk = TrimPrefix (SecretKey taqAccount) ''unencrypted:'';
          sk = fst (ParsePrivateKey x str_sk);
          err = snd (ParsePrivateKey x str_sk);
          printed1 = (case err of None \<Rightarrow> printed | Some e \<Rightarrow> printed @ [e]);
          account = \<lparr>Address = Address_of x sk, PrivateKey = sk,
                     Id = getAccountId accountName taqAccountDefault count\<rparr>;
          ctx1 = (if isDefaultAccount accountName taqAccountDefault
                  then ctx\<lparr>BaseAccount := account\<rparr> else ctx);
          ctx2 = ctx1\<lparr>Accounts_ctx := (Accounts_ctx ctx1)(Address account \<mapsto> account)\<rparr>;
          ctx3 = ctx2\<lparr>Variables :=
                   AddVariable x accountName (String_of x (Address account)) (Variables ctx2)\<rparr>
      in map_accounts x taqAccountDefault rest (count + 1) (printed1, ctx3))"

definition mapTaqEnvAccountToContextAccount ::
    "('key, 'addr, 'v) collaborators \<Rightarrow> ('key, 'addr, 'v) Context \<Rightarrow>
     (string \<times> TaqEnvAccount) list \<Rightarrow> string \<Rightarrow> error list \<times> ('key, 'addr, 'v) Context" where
  "mapTaqEnvAccountToContextAccount x ctx taqAccounts taqAccountDefault =
     map_accounts x taqAccountDefault taqAccounts 1 ([], ctx)"

text \<open>
  \<open>UpdateTaqContext\<close> returns its error, and the context it has written through the
  pointer with what was printed. The default account, when none is named, is the first
  key the \<open>range\<close> produces.
\<close>

definition UpdateTaqContext ::
    "('key, 'addr, 'v) collaborators \<Rightarrow> ('key, 'addr, 'v) Context \<Rightarrow> TaqConfigSet \<Rightarrow>
     error option \<times> error list \<times> ('key, 'addr, 'v) Context" where
  "UpdateTaqContext x ctx taqConfigSet =
     (if length (Accounts (TaqConfig_set taqConfigSet)) = 0
      then (Some ''E_TAQ_ERROR: No accounts configured'', [], ctx)
      else if length (Accounts_env (TaqConfigEnv_set taqConfigSet)) = 0
      then (Some ''E_TAQ_ERROR: No accounts configured'', [], ctx)
      else case (if AccountDefault (TaqConfigEnv_set taqConfigSet) = ''''
                 then (case Accounts_env (TaqConfigEnv_set taqConfigSet) of
                         (accountName, taqAccount) # rest \<Rightarrow> Inr accountName
                       | [] \<Rightarrow> Inl ''E_TAQ_ERROR: No default account specified'')
                 else Inr (AccountDefault (TaqConfigEnv_set taqConfigSet))) of
             Inl e \<Rightarrow> (Some e, [], ctx)
           | Inr accountDefault \<Rightarrow>
               (None, mapTaqEnvAccountToContextAccount x ctx
                        (Accounts_env (TaqConfigEnv_set taqConfigSet)) accountDefault))"

text \<open>
  \<open>NewTaqContext\<close> reads both flag values before it looks at the flags, so a panic of
  \<open>getFlagValue\<close> is a panic of \<open>NewTaqContext\<close>. Its result is the error, or what was
  printed and the context.
\<close>

definition NewTaqContext ::
    "('key, 'addr, 'v) collaborators \<Rightarrow> string list \<Rightarrow>
     (error + error list \<times> ('key, 'addr, 'v) Context) go_result" where
  "NewTaqContext x Args =
     (let taqConfigFlagSpecified = IsFlagSpecified Args ''taqconfig'';
          taqConfigEnvFlagSpecified = IsFlagSpecified Args ''taqconfigenv''
      in if taqConfigFlagSpecified \<noteq> taqConfigEnvFlagSpecified
         then Value (Inl ''E_TAQ_ERROR: taqconfig and taqconfigenv must be specified together'')
         else case getFlagValue Args ''taqconfig'' of
                Panic \<Rightarrow> Panic
              | Value taqConfigJSON \<Rightarrow>
                  (case getFlagValue Args ''taqconfigenv'' of
                     Panic \<Rightarrow> Panic
                   | Value taqConfigEnvJSON \<Rightarrow>
                       if taqConfigFlagSpecified \<and> taqConfigEnvFlagSpecified
                       then (case ParseTaqConfig x taqConfigJSON taqConfigEnvJSON of
                               Inl e \<Rightarrow> Value (Inl e)
                             | Inr configSet \<Rightarrow>
                                 (case UpdateTaqContext x (NewContext x) configSet of
                                    (Some e, out) \<Rightarrow> Value (Inl e)
                                  | (None, out) \<Rightarrow> Value (Inr out)))
                       else Value (Inr ([], NewContext x))))"

section \<open>The confirmation observer (package rpc, observer.go)\<close>

text \<open>
  \<open>tezos.BlockHash\<close> and \<open>tezos.OpHash\<close> are byte strings declared in package
  \<open>tezos\<close>; their \<open>Equal\<close> compares the bytes, and the zero value of a block hash is
  written \<open>ZeroBlockHash\<close>. Go's \<open>int\<close> and \<open>int64\<close> are 64 bits wide here; the
  counter \<open>seq\<close> starts at 0 and grows by one for each \<open>Subscribe\<close>, heights and
  positions come from the node, so no value gets near the range's end and the integers
  are modelled as \<open>int\<close>.
\<close>

type_synonym BlockHash = string
type_synonym OpHash = string

definition ZeroBlockHash :: BlockHash where
  "ZeroBlockHash = []"

text \<open>
  \<^verbatim>\<open>type ObserverCallback func(tezos.BlockHash, int64, int, int, bool) bool\<close>.
  A callback is a Go closure: besides returning the removal request it may read and
  change whatever it has captured. That outside world is the type \<open>'w\<close>, and a
  callback maps its arguments and the world to its result and the world afterwards.
  Every call site of a callback holds \<open>m.mu\<close>, so a callback cannot re-enter the
  observer.
\<close>

type_synonym call = "BlockHash \<times> int \<times> int \<times> int \<times> bool"
type_synonym 'w ObserverCallback = "call \<Rightarrow> 'w \<Rightarrow> bool \<times> 'w"

record 'w observerSubscription =
  id_sub :: int
  cb :: "'w ObserverCallback"
  oh :: OpHash
  matched :: bool

text \<open>
  The fields of \<open>Observer\<close> that the operations read or write. \<open>ctx_done\<close> is the state of
  \<open>m.ctx\<close>: true once \<open>m.cancel()\<close> has run. \<open>once\<close>, \<open>mu\<close>, \<open>c\<close> and \<open>minDelay\<close> carry
  no data of their own here (the lock is the step granularity below, the client is the
  source of the answers, and durations are not modelled). Two components are not fields
  of the struct: \<open>world\<close>, the state the callbacks act on, and \<open>calls\<close>, the record of
  every callback invocation (the watcher's \<open>id\<close> and the arguments) in order.
\<close>

record 'w Observer =
  subs :: "int \<rightharpoonup> 'w observerSubscription"
  watched :: "OpHash \<rightharpoonup> int"
  recent :: "OpHash \<rightharpoonup> int \<times> int \<times> int"
  seq :: int
  ctx_done :: bool
  bestHash :: BlockHash
  bestHeight :: int
  world :: 'w
  calls :: "(int \<times> call) list"

definition NewObserver :: "'w \<Rightarrow> 'w Observer" where
  "NewObserver w =
     \<lparr>subs = Map.empty, watched = Map.empty, recent = Map.empty, seq = 0, ctx_done = False,
      bestHash = ZeroBlockHash, bestHeight = 0, world = w, calls = []\<rparr>"

text \<open>One invocation \<^verbatim>\<open>v.cb(...)\<close>: the value it returns, and the state after it.\<close>

definition cb_remove :: "'w observerSubscription \<Rightarrow> call \<Rightarrow> 'w Observer \<Rightarrow> bool" where
  "cb_remove v a m = fst (cb v a (world m))"

definition cb_after :: "'w observerSubscription \<Rightarrow> call \<Rightarrow> 'w Observer \<Rightarrow> 'w Observer" where
  "cb_after v a m = m\<lparr>world := snd (cb v a (world m)), calls := calls m @ [(id_sub v, a)]\<rparr>"

definition Close :: "'w Observer \<Rightarrow> 'w Observer" where
  "Close m = m\<lparr>ctx_done := True, subs := Map.empty, watched := Map.empty, recent := Map.empty\<rparr>"

text \<open>
  \<open>Subscribe\<close> returns the new id and the state. \<open>match := m.subs[seq]\<close> is the entry
  stored three statements earlier, so the model binds it once.
\<close>

definition Subscribe :: "OpHash \<Rightarrow> 'w ObserverCallback \<Rightarrow> 'w Observer \<Rightarrow> int \<times> 'w Observer" where
  "Subscribe h f m =
     (let seq' = seq m + 1;
          match = \<lparr>id_sub = seq', cb = f, oh = h, matched = False\<rparr>;
          m1 = m\<lparr>seq := seq', subs := (subs m)(seq' \<mapsto> match), watched := (watched m)(h \<mapsto> seq')\<rparr>
      in case recent m1 h of
           None \<Rightarrow> (seq', m1)
         | Some pos \<Rightarrow>
             (let a = (bestHash m1, fst pos, fst (snd pos), snd (snd pos), False);
                  m2 = cb_after match a m1
              in if cb_remove match a m1
                 then (seq', m2\<lparr>subs := (subs m2)(id_sub match := None)\<rparr>)
                 else (seq', m2)))"

definition Unsubscribe :: "int \<Rightarrow> 'w Observer \<Rightarrow> 'w Observer" where
  "Unsubscribe i m =
     (case subs m i of
        None \<Rightarrow> m
      | Some req \<Rightarrow> m\<lparr>watched := (watched m)(oh req := None), subs := (subs m)(i := None)\<rparr>)"

subsection \<open>The passes of \<open>listenBlocks\<close> over the registry\<close>

text \<open>
  \<^verbatim>\<open>for _, v := range m.subs { if v.matched { ... } }\<close>, under \<open>m.mu\<close>. Go leaves the
  order of a \<open>range\<close> over a map to the runtime: the order is the parameter \<open>ks\<close>, the
  keys as the runtime enumerates them. An entry removed before it is reached is not
  produced, which is the \<open>None\<close> case.
\<close>

definition depth_visit :: "BlockHash \<Rightarrow> int \<Rightarrow> 'w Observer \<Rightarrow> 'w Observer" where
  "depth_visit headBlock k m =
     (case subs m k of
        None \<Rightarrow> m
      | Some v \<Rightarrow>
          if matched v
          then (let a = (headBlock, - 1, - 1, - 1, False); m1 = cb_after v a m
                in if cb_remove v a m then m1\<lparr>subs := (subs m1)(id_sub v := None)\<rparr> else m1)
          else m)"

definition depth_pass :: "BlockHash \<Rightarrow> int list \<Rightarrow> 'w Observer \<Rightarrow> 'w Observer" where
  "depth_pass headBlock ks m = fold (depth_visit headBlock) ks m"

text \<open>
  \<^verbatim>\<open>for l, list := range ohs { for n, h := range list { ... } }\<close>: the positions of
  a block in the order the two loops visit them.
\<close>

definition positions :: "OpHash list list \<Rightarrow> (nat \<times> nat \<times> OpHash) list" where
  "positions ohs =
     concat (map (\<lambda>(l, list). map (\<lambda>(n, h). (l, n, h)) (enumerate 0 list)) (enumerate 0 ohs))"

text \<open>
  The body of the inner loop. \<open>match\<close> is a pointer to the entry stored under \<open>id\<close>, so
  \<open>match.matched = true\<close> changes that entry.
\<close>

definition match_visit :: "BlockHash \<Rightarrow> int \<Rightarrow> nat \<times> nat \<times> OpHash \<Rightarrow> 'w Observer \<Rightarrow> 'w Observer" where
  "match_visit headBlock headHeight p m =
     (case p of (l, n, h) \<Rightarrow>
        let m1 = m\<lparr>recent := (recent m)(h \<mapsto> (headHeight, int l, int n))\<rparr>
        in case watched m1 h of
             None \<Rightarrow> m1
           | Some i \<Rightarrow>
               (case subs m1 i of
                  None \<Rightarrow> m1
                | Some match \<Rightarrow>
                    if oh match \<noteq> h then m1
                    else (let a = (headBlock, headHeight, int l, int n, False);
                              m2 = cb_after match a m1
                          in if cb_remove match a m1
                             then m2\<lparr>subs := (subs m2)(id_sub match := None)\<rparr>
                             else m2\<lparr>subs := (subs m2)(i \<mapsto> match\<lparr>matched := True\<rparr>)\<rparr>)))"

text \<open>The section between the second \<open>m.mu.Lock()\<close> and its \<open>Unlock\<close>.\<close>

definition match_pass :: "BlockHash \<Rightarrow> int \<Rightarrow> OpHash list list \<Rightarrow> 'w Observer \<Rightarrow> 'w Observer" where
  "match_pass headBlock headHeight ohs m =
     (fold (match_visit headBlock headHeight) (positions ohs) m)
       \<lparr>bestHash := headBlock, bestHeight := headHeight\<rparr>"

text \<open>\<^verbatim>\<open>delete(m.recent, n)\<close>, one turn of the loop that clears the cache.\<close>

definition delete_recent :: "OpHash \<Rightarrow> 'w Observer \<Rightarrow> 'w Observer" where
  "delete_recent n m = m\<lparr>recent := (recent m)(n := None)\<rparr>"

subsection \<open>\<open>listenBlocks\<close> as a machine\<close>

text \<open>
  \<open>listenBlocks\<close> runs in a goroutine of its own while callers run \<open>Subscribe\<close>,
  \<open>Unsubscribe\<close> and \<open>Close\<close>. The loop is cut into steps at the places where another
  goroutine can run in between: a section that holds \<open>m.mu\<close> is one step (the callers
  take the same lock for their whole body), each call to the client is one step, each
  \<open>select\<close> is one step, and each statement that touches the observer without the lock
  is one step. \<open>location\<close> says which step comes next; it carries the loop's local
  variables \<open>headBlock\<close>, \<open>headHeight\<close>, \<open>ohs\<close> and, inside the loop that clears the
  cache, the keys the \<open>range\<close> has not produced yet.
\<close>

datatype location =
    AtTop
  | AtOpen
  | AtBackoff
  | AtRecv
  | AtTip
  | AtHash int
  | AtHalfWait
  | AtDepth BlockHash int
  | AtFetch BlockHash int
  | AtRange BlockHash int "OpHash list list"
  | AtClear BlockHash int "OpHash list list" "OpHash list"
  | AtMatch BlockHash int "OpHash list list"
  | AtPollWait
  | Exited

text \<open>The calls to the client, recorded in the order they are made.\<close>

datatype rpc = MonitorBlockHeader | Recv | GetTipHeader | GetBlockHash | GetBlockOperationHashes

text \<open>
  What the outside contributes to a step: the result of the call to the client
  (\<open>Failed st\<close> is an error with \<open>ErrorStatus(err) = st\<close>), or the order in which the
  runtime enumerates a map. \<open>Tick\<close> is for the steps that need neither. An answer that
  does not fit the pending step leaves the state as it is.
\<close>

datatype answer =
    Tick
  | Failed int
  | Opened
  | Header BlockHash int
  | BlockHashIs BlockHash
  | Ops "OpHash list list"
  | SubsOrder "int list"
  | RecentOrder "OpHash list"

text \<open>
  The observer together with the locals of \<open>listenBlocks\<close>: \<open>mon\<close> is \<open>mon != nil\<close>.
  \<open>rpcs\<close> is not a variable of the code: it records the calls made to the client.
\<close>

record 'w listener =
  obs :: "'w Observer"
  mon :: bool
  useEvents :: bool
  firstLoop :: bool
  at :: location
  rpcs :: "rpc list"

definition listenBlocks_start :: "'w Observer \<Rightarrow> 'w listener" where
  "listenBlocks_start m =
     \<lparr>obs = m, mon = False, useEvents = True, firstLoop = True, at = AtTop, rpcs = []\<rparr>"

text \<open>\<^verbatim>\<open>if mon != nil && useEvents && !firstLoop\<close>: event mode, else poll mode.\<close>

definition head_source :: "'w listener \<Rightarrow> location" where
  "head_source s = (if mon s \<and> useEvents s \<and> \<not> firstLoop s then AtRecv else AtTip)"

text \<open>
  With the new head in hand: \<open>firstLoop = false\<close>, then the test
  \<^verbatim>\<open>headBlock.Equal(m.bestHash) && !useEvents\<close> that skips a processed block.
\<close>

definition new_head :: "BlockHash \<Rightarrow> int \<Rightarrow> 'w listener \<Rightarrow> 'w listener" where
  "new_head headBlock headHeight s =
     (if headBlock = bestHash (obs s) \<and> \<not> useEvents s
      then s\<lparr>firstLoop := False, at := AtHalfWait\<rparr>
      else s\<lparr>firstLoop := False, at := AtDepth headBlock headHeight\<rparr>)"

text \<open>
  \<^verbatim>\<open>select { case <-m.ctx.Done(): return; case <-time.After(d): }\<close>. The step is
  the moment the \<open>select\<close> is decided: a \<open>Close\<close> scheduled before it has cancelled the
  context and the loop returns, otherwise the timer has elapsed and the loop continues.
\<close>

definition wait_or_return :: "'w listener \<Rightarrow> 'w listener" where
  "wait_or_return s = (if ctx_done (obs s) then s\<lparr>at := Exited\<rparr> else s\<lparr>at := AtTop\<rparr>)"

definition engine_step :: "answer \<Rightarrow> 'w listener \<Rightarrow> 'w listener" where
  "engine_step a s =
     (case at s of
        AtTop \<Rightarrow>
          if ctx_done (obs s) then s\<lparr>at := Exited\<rparr>
          else if \<not> mon s \<and> useEvents s then s\<lparr>at := AtOpen\<rparr>
          else s\<lparr>at := head_source s\<rparr>
      | AtOpen \<Rightarrow>
          (case a of
             Opened \<Rightarrow>
               (let s1 = s\<lparr>mon := True, rpcs := rpcs s @ [MonitorBlockHeader]\<rparr>
                in s1\<lparr>at := head_source s1\<rparr>)
           | Failed st \<Rightarrow>
               (let s1 = s\<lparr>mon := False, rpcs := rpcs s @ [MonitorBlockHeader]\<rparr>
                in if st = 404 then s1\<lparr>useEvents := False, at := AtTop\<rparr>
                   else s1\<lparr>at := AtBackoff\<rparr>)
           | _ \<Rightarrow> s)
      | AtBackoff \<Rightarrow> wait_or_return s
      | AtRecv \<Rightarrow>
          (case a of
             Header headBlock headHeight \<Rightarrow>
               new_head headBlock headHeight (s\<lparr>rpcs := rpcs s @ [Recv]\<rparr>)
           | Failed st \<Rightarrow> s\<lparr>mon := False, rpcs := rpcs s @ [Recv], at := AtTop\<rparr>
           | _ \<Rightarrow> s)
      | AtTip \<Rightarrow>
          (case a of
             Header tipHash level \<Rightarrow> s\<lparr>rpcs := rpcs s @ [GetTipHeader], at := AtHash level\<rparr>
           | Failed st \<Rightarrow> s\<lparr>rpcs := rpcs s @ [GetTipHeader], at := AtBackoff\<rparr>
           | _ \<Rightarrow> s)
      | AtHash level \<Rightarrow>
          (case a of
             BlockHashIs headBlock \<Rightarrow>
               new_head headBlock level (s\<lparr>rpcs := rpcs s @ [GetBlockHash]\<rparr>)
           | Failed st \<Rightarrow> s\<lparr>rpcs := rpcs s @ [GetBlockHash], at := AtTop\<rparr>
           | _ \<Rightarrow> s)
      | AtHalfWait \<Rightarrow> wait_or_return s
      | AtDepth headBlock headHeight \<Rightarrow>
          (case a of
             SubsOrder ks \<Rightarrow>
               s\<lparr>obs := depth_pass headBlock ks (obs s), at := AtFetch headBlock headHeight\<rparr>
           | _ \<Rightarrow> s)
      | AtFetch headBlock headHeight \<Rightarrow>
          (case a of
             Ops ohs \<Rightarrow>
               s\<lparr>rpcs := rpcs s @ [GetBlockOperationHashes], at := AtRange headBlock headHeight ohs\<rparr>
           | Failed st \<Rightarrow> s\<lparr>rpcs := rpcs s @ [GetBlockOperationHashes], at := AtTop\<rparr>
           | _ \<Rightarrow> s)
      | AtRange headBlock headHeight ohs \<Rightarrow>
          (case a of
             RecentOrder ks \<Rightarrow> s\<lparr>at := AtClear headBlock headHeight ohs ks\<rparr>
           | _ \<Rightarrow> s)
      | AtClear headBlock headHeight ohs ks \<Rightarrow>
          (case ks of
             [] \<Rightarrow> s\<lparr>at := AtMatch headBlock headHeight ohs\<rparr>
           | n # rest \<Rightarrow>
               s\<lparr>obs := delete_recent n (obs s), at := AtClear headBlock headHeight ohs rest\<rparr>)
      | AtMatch headBlock headHeight ohs \<Rightarrow>
          s\<lparr>obs := match_pass headBlock headHeight ohs (obs s),
            at := (if useEvents s then AtTop else AtPollWait)\<rparr>
      | AtPollWait \<Rightarrow> wait_or_return s
      | Exited \<Rightarrow> s)"

text \<open>
  A schedule is the list of steps in the order they happen: a step of the loop with the
  outside's answer, or a whole call of one of the observer's methods by some caller.
\<close>

datatype 'w event =
    Engine answer
  | CallSubscribe OpHash "'w ObserverCallback"
  | CallUnsubscribe int
  | CallClose

definition do_event :: "'w event \<Rightarrow> 'w listener \<Rightarrow> 'w listener" where
  "do_event e s =
     (case e of
        Engine a \<Rightarrow> engine_step a s
      | CallSubscribe h f \<Rightarrow> s\<lparr>obs := snd (Subscribe h f (obs s))\<rparr>
      | CallUnsubscribe i \<Rightarrow> s\<lparr>obs := Unsubscribe i (obs s)\<rparr>
      | CallClose \<Rightarrow> s\<lparr>obs := Close (obs s)\<rparr>)"

definition run :: "'w event list \<Rightarrow> 'w listener \<Rightarrow> 'w listener" where
  "run evs s = fold do_event evs s"

subsection \<open>What the properties of the observer are stated with\<close>





text \<open>Every watcher is stored under its own id, and the ids in use are \<open>1 .. seq\<close>.\<close>

definition ids_agree :: "'w Observer \<Rightarrow> bool" where
  "ids_agree m = (\<forall>i v. subs m i = Some v \<longrightarrow> id_sub v = i \<and> 0 < i \<and> i \<le> seq m)"

text \<open>
  Every entry of the index names an id that has been handed out, and if that watcher is
  still in \<open>subs\<close>, it is the watcher of that hash.
\<close>

definition index_sound :: "'w Observer \<Rightarrow> bool" where
  "index_sound m =
     (\<forall>h i. watched m h = Some i \<longrightarrow> 0 < i \<and> i \<le> seq m \<and> (\<forall>v. subs m i = Some v \<longrightarrow> oh v = h))"

text \<open>The invariant of the specification: the ids in the index are keys of \<open>subs\<close>.\<close>

definition index_live :: "'w Observer \<Rightarrow> bool" where
  "index_live m = (ran (watched m) \<subseteq> dom (subs m))"

text \<open>A callback that never asks for its watcher's removal, and schedules of such.\<close>

definition keeps_watching :: "'w ObserverCallback \<Rightarrow> bool" where
  "keeps_watching f = (\<forall>a w. \<not> fst (f a w))"

definition no_removal :: "'w event \<Rightarrow> bool" where
  "no_removal e = (case e of CallSubscribe h f \<Rightarrow> keeps_watching f | _ \<Rightarrow> True)"

text \<open>What holds of the registry at every point of every schedule.\<close>

definition registry_inv :: "'w Observer \<Rightarrow> bool" where
  "registry_inv m = (0 \<le> seq m \<and> ids_agree m \<and> index_sound m)"

definition all_keep :: "'w Observer \<Rightarrow> bool" where
  "all_keep m = (\<forall>i v. subs m i = Some v \<longrightarrow> keeps_watching (cb v))"

definition quiet_inv :: "'w Observer \<Rightarrow> bool" where
  "quiet_inv m = (registry_inv m \<and> index_live m \<and> all_keep m)"

text \<open>
  The loop in poll mode: \<open>useEvents\<close> is false and the next step is neither the call that
  opens a stream nor a receive from one. \<open>poll_rpcs\<close> are the calls of the polling path.
\<close>

definition polling :: "'w listener \<Rightarrow> bool" where
  "polling s = (\<not> useEvents s \<and> at s \<noteq> AtOpen \<and> at s \<noteq> AtRecv)"

definition poll_rpcs :: "rpc set" where
  "poll_rpcs = {GetTipHeader, GetBlockHash, GetBlockOperationHashes}"


section \<open>Properties of the flag functions\<close>

lemma names_flag_iff: "names_flag arg flag \<longleftrightarrow> arg = CHR ''-'' # flag"
  by (cases arg) (auto simp: names_flag_def HasPrefix_def TrimPrefix_def)

lemma IsFlagSpecified_iff: "IsFlagSpecified Args flag \<longleftrightarrow> (\<exists>a \<in> set Args. names_flag a flag)"
  by (induction Args) auto

lemma getFlagValue_range_absent:
  "\<not> IsFlagSpecified rest flag \<Longrightarrow> getFlagValue_range Args rest i flag = Value ''''"
  by (induction rest arbitrary: i) (auto split: if_splits)

lemma getFlagValue_range_first:
  assumes "\<not> IsFlagSpecified pre flag" and "names_flag a flag"
  shows "getFlagValue_range Args (pre @ a # post) i flag = index_args Args (i + length pre + 1)"
  using assms by (induction pre arbitrary: i) (auto split: if_splits)

lemma IsFlagSpecified_split:
  "IsFlagSpecified Args flag \<Longrightarrow>
     \<exists>pre a post. Args = pre @ a # post \<and> \<not> IsFlagSpecified pre flag \<and> names_flag a flag"
proof (induction Args)
  case Nil
  then show ?case by simp
next
  case (Cons x xs)
  show ?case
  proof (cases "names_flag x flag")
    case True
    then have "x # xs = [] @ x # xs \<and> \<not> IsFlagSpecified [] flag \<and> names_flag x flag"
      by simp
    then show ?thesis by blast
  next
    case False
    with Cons.prems have "IsFlagSpecified xs flag" by simp
    with Cons.IH obtain pre a post where
      "xs = pre @ a # post" "\<not> IsFlagSpecified pre flag" "names_flag a flag" by blast
    with False have "x # xs = (x # pre) @ a # post \<and> \<not> IsFlagSpecified (x # pre) flag \<and> names_flag a flag"
      by simp
    then show ?thesis by blast
  qed
qed

text \<open>
  C9. \<open>getFlagValue\<close> reads \<open>os.Args[i+1]\<close> with no bounds check. When the first argument
  that names the flag is the last element of the argument list, the read is out of range
  and the call panics. The call returns a value only when the flag is absent (the value
  is the empty string) or the first argument naming it is followed by another argument
  (the value is that argument).
\<close>

theorem getFlagValue_bounds:
  "(\<not> IsFlagSpecified pre flag \<longrightarrow> getFlagValue (pre @ [CHR ''-'' # flag]) flag = Panic) \<and>
   (getFlagValue Args flag = Value v \<longrightarrow>
      (\<not> IsFlagSpecified Args flag \<and> v = '''') \<or>
      (\<exists>i. i + 1 < length Args \<and> names_flag (Args ! i) flag \<and>
           \<not> IsFlagSpecified (take i Args) flag \<and> v = Args ! (i + 1)))"
proof (intro conjI impI)
  assume "\<not> IsFlagSpecified pre flag"
  then show "getFlagValue (pre @ [CHR ''-'' # flag]) flag = Panic"
    using getFlagValue_range_first [of pre flag "CHR ''-'' # flag" "pre @ [CHR ''-'' # flag]" "[]" 0]
    by (simp add: getFlagValue_def names_flag_iff index_args_def)
next
  assume v: "getFlagValue Args flag = Value v"
  show "(\<not> IsFlagSpecified Args flag \<and> v = '''') \<or>
      (\<exists>i. i + 1 < length Args \<and> names_flag (Args ! i) flag \<and>
           \<not> IsFlagSpecified (take i Args) flag \<and> v = Args ! (i + 1))"
  proof (cases "IsFlagSpecified Args flag")
    case False
    with v show ?thesis by (simp add: getFlagValue_def getFlagValue_range_absent)
  next
    case True
    then obtain pre a post where
      s: "Args = pre @ a # post" "\<not> IsFlagSpecified pre flag" "names_flag a flag"
      using IsFlagSpecified_split by blast
    then have "getFlagValue Args flag = index_args Args (length pre + 1)"
      using getFlagValue_range_first [of pre flag a Args post 0] by (simp add: getFlagValue_def)
    with v have "length pre + 1 < length Args \<and> v = Args ! (length pre + 1)"
      by (auto simp: index_args_def split: if_splits)
    moreover from s have "names_flag (Args ! length pre) flag \<and> \<not> IsFlagSpecified (take (length pre) Args) flag"
      by simp
    ultimately show ?thesis by blast
  qed
qed

theorem getFlagValue_bounds_witness:
  "getFlagValue [''tzcompose'', ''-taqconfig''] ''taqconfig'' = Panic \<and>
   getFlagValue [''tzcompose'', ''-taqconfig'', ''{}''] ''taqconfig'' = Value ''{}'' \<and>
   \<not> IsFlagSpecified [''tzcompose''] ''taqconfig''"
proof -
  have a: "\<not> IsFlagSpecified [''tzcompose''] ''taqconfig''"
    by (simp add: names_flag_def HasPrefix_def)
  have b: "getFlagValue [''tzcompose'', ''-taqconfig'', ''{}''] ''taqconfig'' = Value ''{}''"
    by (simp add: getFlagValue_def names_flag_def HasPrefix_def TrimPrefix_def index_args_def)
  from getFlagValue_bounds [of "[''tzcompose'']" "''taqconfig''"
      "[''tzcompose'', ''-taqconfig'', ''{}'']" "''{}''"] a b
  show ?thesis by simp
qed

section \<open>Properties of the observer\<close>

subsection \<open>Subscribe and the recent-inclusion cache\<close>

text \<open>
  C2. A \<open>Subscribe\<close> for a hash that is a key of the recent-inclusion cache invokes the
  new callback exactly once before it returns: the record of calls grows by the one
  entry of the new id, with the head \<open>bestHash\<close>, the cached height, batch and position
  and \<open>isFinal = false\<close>, and the world is the one that single call leaves. If the
  callback returns true, the watcher is no longer in \<open>subs\<close> when \<open>Subscribe\<close> returns;
  if it returns false the watcher stays. For a hash that is not in the cache no
  callback is invoked.
\<close>

theorem Subscribe_catch_up:
  "(recent m h = Some (height, batch, pos) \<longrightarrow>
      fst (Subscribe h f m) = seq m + 1 \<and>
      calls (snd (Subscribe h f m)) = calls m @ [(seq m + 1, (bestHash m, height, batch, pos, False))] \<and>
      world (snd (Subscribe h f m)) = snd (f (bestHash m, height, batch, pos, False) (world m)) \<and>
      (fst (f (bestHash m, height, batch, pos, False) (world m)) \<longrightarrow>
         subs (snd (Subscribe h f m)) (seq m + 1) = None) \<and>
      (\<not> fst (f (bestHash m, height, batch, pos, False) (world m)) \<longrightarrow>
         subs (snd (Subscribe h f m)) (seq m + 1) =
           Some \<lparr>id_sub = seq m + 1, cb = f, oh = h, matched = False\<rparr>)) \<and>
   (recent m h = None \<longrightarrow>
      fst (Subscribe h f m) = seq m + 1 \<and>
      calls (snd (Subscribe h f m)) = calls m \<and> world (snd (Subscribe h f m)) = world m)"
  by (simp add: Subscribe_def Let_def cb_after_def cb_remove_def)

theorem Subscribe_catch_up_witness:
  "recent ((NewObserver (0::nat))\<lparr>recent := [''opA'' \<mapsto> (100, 0, 3)], bestHash := ''h100''\<rparr>) ''opA''
     = Some (100, 0, 3) \<and>
   calls (snd (Subscribe ''opA'' (\<lambda>a w. (True, Suc w))
      ((NewObserver (0::nat))\<lparr>recent := [''opA'' \<mapsto> (100, 0, 3)], bestHash := ''h100''\<rparr>)))
     = [(1, (''h100'', 100, 0, 3, False))] \<and>
   world (snd (Subscribe ''opA'' (\<lambda>a w. (True, Suc w))
      ((NewObserver (0::nat))\<lparr>recent := [''opA'' \<mapsto> (100, 0, 3)], bestHash := ''h100''\<rparr>))) = 1 \<and>
   subs (snd (Subscribe ''opA'' (\<lambda>a w. (True, Suc w))
      ((NewObserver (0::nat))\<lparr>recent := [''opA'' \<mapsto> (100, 0, 3)], bestHash := ''h100''\<rparr>))) 1 = None \<and>
   recent (NewObserver (0::nat)) ''opA'' = None \<and>
   calls (snd (Subscribe ''opA'' (\<lambda>a w. (True, Suc w)) (NewObserver (0::nat)))) = []"
  using Subscribe_catch_up [of "(NewObserver (0::nat))\<lparr>recent := [''opA'' \<mapsto> (100, 0, 3)], bestHash := ''h100''\<rparr>"
      "''opA''" 100 0 3 "\<lambda>a w. (True, Suc w)"]
    Subscribe_catch_up [of "NewObserver (0::nat)" "''opA''" 100 0 3 "\<lambda>a w. (True, Suc w)"]
  by (simp add: NewObserver_def)

subsection \<open>The pass over a fetched block\<close>

























subsection \<open>The registry and its index\<close>

lemma registry_inv_NewObserver: "registry_inv (NewObserver w)"
  by (simp add: registry_inv_def ids_agree_def index_sound_def NewObserver_def)

lemma Subscribe_seq: "seq (snd (Subscribe h f m)) = seq m + 1"
  by (simp add: Subscribe_def Let_def cb_after_def split: option.splits)

lemma Subscribe_watched: "watched (snd (Subscribe h f m)) = (watched m)(h \<mapsto> seq m + 1)"
  by (simp add: Subscribe_def Let_def cb_after_def split: option.splits)

lemma Subscribe_recent: "recent (snd (Subscribe h f m)) = recent m"
  by (simp add: Subscribe_def Let_def cb_after_def split: option.splits)

lemma Subscribe_subs:
  "subs (snd (Subscribe h f m)) =
     (if recent m h \<noteq> None \<and>
         cb_remove \<lparr>id_sub = seq m + 1, cb = f, oh = h, matched = False\<rparr>
           (bestHash m, fst (the (recent m h)), fst (snd (the (recent m h))), snd (snd (the (recent m h))), False) m
      then (subs m)(seq m + 1 := None)
      else (subs m)(seq m + 1 \<mapsto> \<lparr>id_sub = seq m + 1, cb = f, oh = h, matched = False\<rparr>))"
  by (auto simp: Subscribe_def Let_def cb_after_def cb_remove_def split: option.splits)

lemma registry_inv_Subscribe:
  assumes "registry_inv m"
  shows "registry_inv (snd (Subscribe h f m))"
proof -
  let ?m' = "snd (Subscribe h f m)"
  from assms have s: "0 \<le> seq m" and a: "ids_agree m" and x: "index_sound m"
    by (simp_all add: registry_inv_def)
  have a': "ids_agree ?m'"
    unfolding ids_agree_def Subscribe_seq Subscribe_subs
    using a s by (auto simp: ids_agree_def split: if_splits) force+
  have x': "index_sound ?m'"
    unfolding index_sound_def Subscribe_seq Subscribe_subs Subscribe_watched
    using x a s by (auto simp: index_sound_def ids_agree_def split: if_splits) force+
  from s a' x' show ?thesis by (simp add: registry_inv_def Subscribe_seq)
qed


lemma registry_inv_Unsubscribe: "registry_inv m \<Longrightarrow> registry_inv (Unsubscribe i m)"
  unfolding registry_inv_def ids_agree_def index_sound_def
  by (auto simp: Unsubscribe_def split: option.splits if_splits)

lemma registry_inv_Close: "registry_inv m \<Longrightarrow> registry_inv (Close m)"
  unfolding registry_inv_def ids_agree_def index_sound_def
  by (simp add: Close_def)

lemma registry_inv_depth_visit: "registry_inv m \<Longrightarrow> registry_inv (depth_visit hb k m)"
  unfolding registry_inv_def ids_agree_def index_sound_def
  by (auto simp: depth_visit_def Let_def cb_after_def split: option.splits if_splits)

lemma registry_inv_depth_pass: "registry_inv m \<Longrightarrow> registry_inv (depth_pass hb ks m)"
  unfolding depth_pass_def
  by (induction ks arbitrary: m) (simp_all add: registry_inv_depth_visit)

lemma match_visit_seq: "seq (match_visit hb hh p m) = seq m"
  by (cases p) (simp add: match_visit_def Let_def cb_after_def split: option.splits)

lemma match_visit_watched: "watched (match_visit hb hh p m) = watched m"
  by (cases p) (simp add: match_visit_def Let_def cb_after_def split: option.splits)

lemma match_visit_subs:
  "subs (match_visit hb hh p m) = subs m \<or>
   (\<exists>i v. watched m (snd (snd p)) = Some i \<and> subs m i = Some v \<and> oh v = snd (snd p) \<and>
      (subs (match_visit hb hh p m) = (subs m)(id_sub v := None) \<or>
       subs (match_visit hb hh p m) = (subs m)(i \<mapsto> v\<lparr>matched := True\<rparr>)))"
  by (cases p) (simp add: match_visit_def Let_def cb_after_def split: option.splits)

lemma ids_agree_del: "ids_agree m \<Longrightarrow> seq m' = seq m \<Longrightarrow> subs m' = (subs m)(k := None) \<Longrightarrow> ids_agree m'"
  by (simp add: ids_agree_def)

lemma ids_agree_mark:
  "ids_agree m \<Longrightarrow> seq m' = seq m \<Longrightarrow> subs m i = Some v \<Longrightarrow>
     subs m' = (subs m)(i \<mapsto> v\<lparr>matched := True\<rparr>) \<Longrightarrow> ids_agree m'"
  by (simp add: ids_agree_def)

lemma index_sound_del:
  "index_sound m \<Longrightarrow> seq m' = seq m \<Longrightarrow> watched m' = watched m \<Longrightarrow>
     subs m' = (subs m)(k := None) \<Longrightarrow> index_sound m'"
  by (simp add: index_sound_def)

lemma index_sound_mark:
  "index_sound m \<Longrightarrow> seq m' = seq m \<Longrightarrow> watched m' = watched m \<Longrightarrow> subs m i = Some v \<Longrightarrow>
     subs m' = (subs m)(i \<mapsto> v\<lparr>matched := True\<rparr>) \<Longrightarrow> index_sound m'"
  by (simp add: index_sound_def)

lemma index_sound_same:
  "index_sound m \<Longrightarrow> seq m' = seq m \<Longrightarrow> watched m' = watched m \<Longrightarrow> subs m' = subs m \<Longrightarrow>
     index_sound m'"
  by (simp add: index_sound_def)

lemma ids_agree_same: "ids_agree m \<Longrightarrow> seq m' = seq m \<Longrightarrow> subs m' = subs m \<Longrightarrow> ids_agree m'"
  by (simp add: ids_agree_def)

lemma registry_inv_match_visit:
  assumes "registry_inv m"
  shows "registry_inv (match_visit hb hh p m)"
proof -
  let ?m' = "match_visit hb hh p m"
  from assms have s: "0 \<le> seq m" and a: "ids_agree m" and x: "index_sound m"
    by (simp_all add: registry_inv_def)
  have q: "seq ?m' = seq m" by (rule match_visit_seq)
  have w: "watched ?m' = watched m" by (rule match_visit_watched)
  have "ids_agree ?m' \<and> index_sound ?m'"
    using match_visit_subs [of hb hh p m]
    by (metis a x q w ids_agree_del ids_agree_mark ids_agree_same
        index_sound_del index_sound_mark index_sound_same)
  with s q show ?thesis by (simp add: registry_inv_def)
qed

lemma registry_inv_best: "registry_inv (m\<lparr>bestHash := hb, bestHeight := hh\<rparr>) = registry_inv m"
  by (simp add: registry_inv_def ids_agree_def index_sound_def)

lemma registry_inv_fold_match: "registry_inv m \<Longrightarrow> registry_inv (fold (match_visit hb hh) ps m)"
  by (induction ps arbitrary: m) (simp_all add: registry_inv_match_visit)

lemma registry_inv_match_pass: "registry_inv m \<Longrightarrow> registry_inv (match_pass hb hh ohs m)"
  by (simp add: match_pass_def registry_inv_best registry_inv_fold_match)

lemma registry_inv_delete_recent: "registry_inv m \<Longrightarrow> registry_inv (delete_recent n m)"
  by (simp add: registry_inv_def ids_agree_def index_sound_def delete_recent_def)

lemma obs_new_head: "obs (new_head hb hh s) = obs s"
  by (simp add: new_head_def)

lemma obs_wait_or_return: "obs (wait_or_return s) = obs s"
  by (simp add: wait_or_return_def)

lemma registry_inv_engine_step:
  "registry_inv (obs s) \<Longrightarrow> registry_inv (obs (engine_step a s))"
  by (cases "at s"; cases a)
    (simp_all add: engine_step_def Let_def obs_new_head obs_wait_or_return
      registry_inv_depth_pass registry_inv_match_pass registry_inv_delete_recent
      split: list.splits)

lemma registry_inv_do_event:
  "registry_inv (obs s) \<Longrightarrow> registry_inv (obs (do_event e s))"
  by (cases e)
    (simp_all add: do_event_def registry_inv_engine_step registry_inv_Subscribe
      registry_inv_Unsubscribe registry_inv_Close)

lemma registry_inv_run:
  "registry_inv (obs s) \<Longrightarrow> registry_inv (obs (run evs s))"
  unfolding run_def
  by (induction evs arbitrary: s) (simp_all add: registry_inv_do_event)


lemma keeps_no_remove: "keeps_watching (cb v) \<Longrightarrow> \<not> cb_remove v a m"
  unfolding keeps_watching_def cb_remove_def by blast

lemma quiet_NewObserver: "quiet_inv (NewObserver w)"
  using registry_inv_NewObserver [of w]
  by (simp add: quiet_inv_def index_live_def all_keep_def NewObserver_def)

lemma quiet_Subscribe:
  assumes "quiet_inv m" and "keeps_watching f"
  shows "quiet_inv (snd (Subscribe h f m))"
proof -
  let ?v = "\<lparr>id_sub = seq m + 1, cb = f, oh = h, matched = False\<rparr>"
  from assms(2) have n: "\<And>a m'. \<not> cb_remove ?v a m'" by (simp add: keeps_no_remove)
  have sb: "subs (snd (Subscribe h f m)) = (subs m)(seq m + 1 \<mapsto> ?v)"
    by (simp add: Subscribe_subs n)
  from assms(1) have l: "index_live m" and k: "all_keep m" and r: "registry_inv m"
    by (simp_all add: quiet_inv_def)
  have l': "index_live (snd (Subscribe h f m))"
    using l unfolding index_live_def sb Subscribe_watched
    by (auto simp: ran_def split: if_splits)
  have k': "all_keep (snd (Subscribe h f m))"
    using k assms(2) unfolding all_keep_def sb by simp
  from l' k' registry_inv_Subscribe [OF r] show ?thesis by (simp add: quiet_inv_def)
qed

lemma quiet_Unsubscribe:
  assumes "quiet_inv m"
  shows "quiet_inv (Unsubscribe i m)"
proof (cases "subs m i")
  case None
  with assms show ?thesis by (simp add: Unsubscribe_def)
next
  case (Some req)
  from assms have l: "index_live m" and k: "all_keep m" and r: "registry_inv m"
    by (simp_all add: quiet_inv_def)
  from r have x: "index_sound m" by (simp add: registry_inv_def)
  have l': "index_live (Unsubscribe i m)"
    unfolding index_live_def
  proof
    fix j assume "j \<in> ran (watched (Unsubscribe i m))"
    then obtain h where h: "h \<noteq> oh req" "watched m h = Some j"
      using Some by (auto simp: Unsubscribe_def ran_def split: if_splits)
    then have "j \<in> dom (subs m)" using l by (auto simp: index_live_def ran_def)
    moreover have "j \<noteq> i"
    proof
      assume "j = i"
      with h x Some have "oh req = h" by (simp add: index_sound_def)
      with h show False by simp
    qed
    ultimately show "j \<in> dom (subs (Unsubscribe i m))"
      using Some by (simp add: Unsubscribe_def)
  qed
  have k': "all_keep (Unsubscribe i m)"
    using k Some by (simp add: all_keep_def Unsubscribe_def)
  from l' k' registry_inv_Unsubscribe [OF r] show ?thesis by (simp add: quiet_inv_def)
qed

lemma quiet_Close: "quiet_inv m \<Longrightarrow> quiet_inv (Close m)"
  by (simp add: quiet_inv_def registry_inv_Close)
     (simp add: index_live_def all_keep_def Close_def)

lemma depth_visit_keep:
  "all_keep m \<Longrightarrow> subs (depth_visit hb k m) = subs m \<and> watched (depth_visit hb k m) = watched m"
  by (auto simp: depth_visit_def Let_def cb_after_def all_keep_def keeps_no_remove
      split: option.splits)

lemma quiet_depth_visit: "quiet_inv m \<Longrightarrow> quiet_inv (depth_visit hb k m)"
  using depth_visit_keep [of m hb k] registry_inv_depth_visit [of m hb k]
  by (simp add: quiet_inv_def index_live_def all_keep_def)

lemma quiet_depth_pass: "quiet_inv m \<Longrightarrow> quiet_inv (depth_pass hb ks m)"
  unfolding depth_pass_def
  by (induction ks arbitrary: m) (simp_all add: quiet_depth_visit)

lemma match_visit_keep:
  assumes "all_keep m"
  shows "subs (match_visit hb hh p m) = subs m \<or>
     (\<exists>i v. subs m i = Some v \<and> subs (match_visit hb hh p m) = (subs m)(i \<mapsto> v\<lparr>matched := True\<rparr>))"
  using assms
  by (cases p)
    (auto simp: match_visit_def Let_def cb_after_def all_keep_def keeps_no_remove
      split: option.splits)

lemma quiet_match_visit:
  assumes "quiet_inv m"
  shows "quiet_inv (match_visit hb hh p m)"
proof -
  let ?m' = "match_visit hb hh p m"
  from assms have l: "index_live m" and k: "all_keep m" and r: "registry_inv m"
    by (simp_all add: quiet_inv_def)
  from match_visit_keep [OF k, of hb hh p]
  have "index_live ?m' \<and> all_keep ?m'"
  proof
    assume "subs ?m' = subs m"
    with l k show ?thesis by (simp add: index_live_def all_keep_def match_visit_watched)
  next
    assume "\<exists>i v. subs m i = Some v \<and> subs ?m' = (subs m)(i \<mapsto> v\<lparr>matched := True\<rparr>)"
    then obtain i v where iv: "subs m i = Some v" "subs ?m' = (subs m)(i \<mapsto> v\<lparr>matched := True\<rparr>)"
      by blast
    from l iv have "index_live ?m'"
      by (auto simp: index_live_def match_visit_watched)
    moreover from k iv have "all_keep ?m'"
      by (auto simp: all_keep_def)
    ultimately show ?thesis by simp
  qed
  with registry_inv_match_visit [OF r, of hb hh p] show ?thesis by (simp add: quiet_inv_def)
qed

lemma quiet_best: "quiet_inv (m\<lparr>bestHash := hb, bestHeight := hh\<rparr>) = quiet_inv m"
  by (simp add: quiet_inv_def registry_inv_best index_live_def all_keep_def)

lemma quiet_fold_match: "quiet_inv m \<Longrightarrow> quiet_inv (fold (match_visit hb hh) ps m)"
  by (induction ps arbitrary: m) (simp_all add: quiet_match_visit)

lemma quiet_match_pass: "quiet_inv m \<Longrightarrow> quiet_inv (match_pass hb hh ohs m)"
  by (simp add: match_pass_def quiet_best quiet_fold_match)

lemma quiet_delete_recent: "quiet_inv m \<Longrightarrow> quiet_inv (delete_recent n m)"
  by (simp add: quiet_inv_def registry_inv_delete_recent)
     (simp add: index_live_def all_keep_def delete_recent_def)

lemma quiet_engine_step: "quiet_inv (obs s) \<Longrightarrow> quiet_inv (obs (engine_step a s))"
  by (cases "at s"; cases a)
    (simp_all add: engine_step_def Let_def obs_new_head obs_wait_or_return
      quiet_depth_pass quiet_match_pass quiet_delete_recent
      split: list.splits)

lemma quiet_do_event:
  "quiet_inv (obs s) \<Longrightarrow> no_removal e \<Longrightarrow> quiet_inv (obs (do_event e s))"
  by (cases e)
    (simp_all add: do_event_def no_removal_def quiet_engine_step quiet_Subscribe
      quiet_Unsubscribe quiet_Close)

lemma quiet_run:
  "quiet_inv (obs s) \<Longrightarrow> \<forall>e \<in> set evs. no_removal e \<Longrightarrow> quiet_inv (obs (run evs s))"
  unfolding run_def
  by (induction evs arbitrary: s) (simp_all add: quiet_do_event)


lemma inv_start: "quiet_inv (obs (listenBlocks_start (NewObserver w)))"
  by (simp add: listenBlocks_start_def quiet_NewObserver)

text \<open>
  What does hold of the registry at every point of every schedule started from a new
  observer: an id that occurs as a value of \<open>watched\<close> lies in \<open>1 .. seq\<close>, and if it is
  still a key of \<open>subs\<close> the watcher stored there has that id and watches that hash. As
  long as every subscribed callback is one that never asks for removal, the ids in
  \<open>watched\<close> are keys of \<open>subs\<close>. \<open>Unsubscribe\<close> removes the \<open>subs\<close> entry and the
  \<open>watched\<close> entry of its hash together, and \<open>Close\<close> empties both maps.
\<close>

lemma registry_index_facts:
  "(watched (obs (run evs (listenBlocks_start (NewObserver w)))) h = Some i \<longrightarrow>
      0 < i \<and> i \<le> seq (obs (run evs (listenBlocks_start (NewObserver w)))) \<and>
      (\<forall>v. subs (obs (run evs (listenBlocks_start (NewObserver w)))) i = Some v \<longrightarrow>
           oh v = h \<and> id_sub v = i)) \<and>
   ((\<forall>e \<in> set evs. no_removal e) \<longrightarrow>
      index_live (obs (run evs (listenBlocks_start (NewObserver w))))) \<and>
   (subs m j = Some req \<longrightarrow>
      subs (Unsubscribe j m) j = None \<and> watched (Unsubscribe j m) (oh req) = None) \<and>
   subs (Close m) = Map.empty \<and> watched (Close m) = Map.empty"
proof (intro conjI impI)
  let ?s = "run evs (listenBlocks_start (NewObserver w))"
  have r: "registry_inv (obs ?s)"
    using inv_start [of w] by (simp add: registry_inv_run quiet_inv_def)
  assume wi: "watched (obs ?s) h = Some i"
  with r show "0 < i" by (simp add: registry_inv_def index_sound_def)
  from r wi show "i \<le> seq (obs ?s)" by (simp add: registry_inv_def index_sound_def)
  from r wi show "\<forall>v. subs (obs ?s) i = Some v \<longrightarrow> oh v = h \<and> id_sub v = i"
    by (simp add: registry_inv_def index_sound_def ids_agree_def)
next
  assume "\<forall>e \<in> set evs. no_removal e"
  then show "index_live (obs (run evs (listenBlocks_start (NewObserver w))))"
    using quiet_run [OF inv_start, of evs w] by (simp add: quiet_inv_def)
next
  assume "subs m j = Some req"
  then show "subs (Unsubscribe j m) j = None" by (simp add: Unsubscribe_def)
next
  assume "subs m j = Some req"
  then show "watched (Unsubscribe j m) (oh req) = None" by (simp add: Unsubscribe_def)
next
  show "subs (Close m) = Map.empty" by (simp add: Close_def)
next
  show "watched (Close m) = Map.empty" by (simp add: Close_def)
qed

lemmas machine_defs = run_def do_event_def engine_step_def listenBlocks_start_def NewObserver_def
  head_source_def new_head_def wait_or_return_def Subscribe_def Unsubscribe_def Close_def
  depth_pass_def depth_visit_def match_pass_def match_visit_def positions_def delete_recent_def
  cb_after_def cb_remove_def ZeroBlockHash_def Let_def enumerate_eq_zip

text \<open>
  C1 fails in the code: a removal that a callback asks for deletes the watcher from
  \<open>subs\<close> and leaves its entry in \<open>watched\<close>, at each of the three places where a
  callback is invoked, while \<open>Unsubscribe\<close> deletes both. In each of the three schedules
  below the watcher of \<open>opA\<close> has the id 1 and the loop has fallen back to polling.
  First, the watcher subscribes before block \<open>h100\<close> holding \<open>opA\<close> is fetched, and its
  callback returns true on the report of the pass over the block. Second, the watcher
  subscribes after that block has been processed, and its callback returns true on the
  report \<open>Subscribe\<close> makes from the cache. Third, the watcher is matched in \<open>h100\<close>
  and its callback returns true when the pass over the matched watchers tells it of
  block \<open>h101\<close>. Each time \<open>watched\<close> still maps \<open>opA\<close> to 1 and 1 is no key of \<open>subs\<close>.
\<close>

theorem callback_removal_keeps_index_entry:
  "watched (obs (run [CallSubscribe ''opA'' (\<lambda>a w. (True, w)), Engine Tick, Engine (Failed 404),
       Engine Tick, Engine (Header ''h100'' 100), Engine (BlockHashIs ''h100''),
       Engine (SubsOrder [1]), Engine (Ops [[''opA'']]), Engine (RecentOrder []),
       Engine Tick, Engine Tick]
       (listenBlocks_start (NewObserver (0::nat))))) ''opA'' = Some 1 \<and>
   subs (obs (run [CallSubscribe ''opA'' (\<lambda>a w. (True, w)), Engine Tick, Engine (Failed 404),
       Engine Tick, Engine (Header ''h100'' 100), Engine (BlockHashIs ''h100''),
       Engine (SubsOrder [1]), Engine (Ops [[''opA'']]), Engine (RecentOrder []),
       Engine Tick, Engine Tick]
       (listenBlocks_start (NewObserver (0::nat))))) 1 = None \<and>
   \<not> index_live (obs (run [CallSubscribe ''opA'' (\<lambda>a w. (True, w)), Engine Tick, Engine (Failed 404),
       Engine Tick, Engine (Header ''h100'' 100), Engine (BlockHashIs ''h100''),
       Engine (SubsOrder [1]), Engine (Ops [[''opA'']]), Engine (RecentOrder []),
       Engine Tick, Engine Tick]
       (listenBlocks_start (NewObserver (0::nat))))) \<and>
   watched (obs (run [Engine Tick, Engine (Failed 404),
       Engine Tick, Engine (Header ''h100'' 100), Engine (BlockHashIs ''h100''),
       Engine (SubsOrder []), Engine (Ops [[''opA'']]), Engine (RecentOrder []),
       Engine Tick, Engine Tick,
       CallSubscribe ''opA'' (\<lambda>a w. (True, w))]
       (listenBlocks_start (NewObserver (0::nat))))) ''opA'' = Some 1 \<and>
   subs (obs (run [Engine Tick, Engine (Failed 404),
       Engine Tick, Engine (Header ''h100'' 100), Engine (BlockHashIs ''h100''),
       Engine (SubsOrder []), Engine (Ops [[''opA'']]), Engine (RecentOrder []),
       Engine Tick, Engine Tick,
       CallSubscribe ''opA'' (\<lambda>a w. (True, w))]
       (listenBlocks_start (NewObserver (0::nat))))) 1 = None \<and>
   \<not> index_live (obs (run [Engine Tick, Engine (Failed 404),
       Engine Tick, Engine (Header ''h100'' 100), Engine (BlockHashIs ''h100''),
       Engine (SubsOrder []), Engine (Ops [[''opA'']]), Engine (RecentOrder []),
       Engine Tick, Engine Tick,
       CallSubscribe ''opA'' (\<lambda>a w. (True, w))]
       (listenBlocks_start (NewObserver (0::nat))))) \<and>
   watched (obs (run [CallSubscribe ''opA'' (\<lambda>a w. (fst (snd a) = - 1, w)), Engine Tick, Engine (Failed 404),
       Engine Tick, Engine (Header ''h100'' 100), Engine (BlockHashIs ''h100''),
       Engine (SubsOrder [1]), Engine (Ops [[''opA'']]), Engine (RecentOrder []),
       Engine Tick, Engine Tick,
       Engine Tick, Engine Tick, Engine (Header ''h101'' 101), Engine (BlockHashIs ''h101''),
       Engine (SubsOrder [1])]
       (listenBlocks_start (NewObserver (0::nat))))) ''opA'' = Some 1 \<and>
   subs (obs (run [CallSubscribe ''opA'' (\<lambda>a w. (fst (snd a) = - 1, w)), Engine Tick, Engine (Failed 404),
       Engine Tick, Engine (Header ''h100'' 100), Engine (BlockHashIs ''h100''),
       Engine (SubsOrder [1]), Engine (Ops [[''opA'']]), Engine (RecentOrder []),
       Engine Tick, Engine Tick,
       Engine Tick, Engine Tick, Engine (Header ''h101'' 101), Engine (BlockHashIs ''h101''),
       Engine (SubsOrder [1])]
       (listenBlocks_start (NewObserver (0::nat))))) 1 = None \<and>
   \<not> index_live (obs (run [CallSubscribe ''opA'' (\<lambda>a w. (fst (snd a) = - 1, w)), Engine Tick, Engine (Failed 404),
       Engine Tick, Engine (Header ''h100'' 100), Engine (BlockHashIs ''h100''),
       Engine (SubsOrder [1]), Engine (Ops [[''opA'']]), Engine (RecentOrder []),
       Engine Tick, Engine Tick,
       Engine Tick, Engine Tick, Engine (Header ''h101'' 101), Engine (BlockHashIs ''h101''),
       Engine (SubsOrder [1])]
       (listenBlocks_start (NewObserver (0::nat)))))"
proof -
  have a: "watched (obs (run [CallSubscribe ''opA'' (\<lambda>a w. (True, w)), Engine Tick, Engine (Failed 404),
       Engine Tick, Engine (Header ''h100'' 100), Engine (BlockHashIs ''h100''),
       Engine (SubsOrder [1]), Engine (Ops [[''opA'']]), Engine (RecentOrder []),
       Engine Tick, Engine Tick]
       (listenBlocks_start (NewObserver (0::nat))))) ''opA'' = Some 1 \<and>
   subs (obs (run [CallSubscribe ''opA'' (\<lambda>a w. (True, w)), Engine Tick, Engine (Failed 404),
       Engine Tick, Engine (Header ''h100'' 100), Engine (BlockHashIs ''h100''),
       Engine (SubsOrder [1]), Engine (Ops [[''opA'']]), Engine (RecentOrder []),
       Engine Tick, Engine Tick]
       (listenBlocks_start (NewObserver (0::nat))))) 1 = None \<and>
   \<not> index_live (obs (run [CallSubscribe ''opA'' (\<lambda>a w. (True, w)), Engine Tick, Engine (Failed 404),
       Engine Tick, Engine (Header ''h100'' 100), Engine (BlockHashIs ''h100''),
       Engine (SubsOrder [1]), Engine (Ops [[''opA'']]), Engine (RecentOrder []),
       Engine Tick, Engine Tick]
       (listenBlocks_start (NewObserver (0::nat)))))"
    by (simp add: machine_defs index_live_def ran_def)
  have b: "watched (obs (run [Engine Tick, Engine (Failed 404),
       Engine Tick, Engine (Header ''h100'' 100), Engine (BlockHashIs ''h100''),
       Engine (SubsOrder []), Engine (Ops [[''opA'']]), Engine (RecentOrder []),
       Engine Tick, Engine Tick,
       CallSubscribe ''opA'' (\<lambda>a w. (True, w))]
       (listenBlocks_start (NewObserver (0::nat))))) ''opA'' = Some 1 \<and>
   subs (obs (run [Engine Tick, Engine (Failed 404),
       Engine Tick, Engine (Header ''h100'' 100), Engine (BlockHashIs ''h100''),
       Engine (SubsOrder []), Engine (Ops [[''opA'']]), Engine (RecentOrder []),
       Engine Tick, Engine Tick,
       CallSubscribe ''opA'' (\<lambda>a w. (True, w))]
       (listenBlocks_start (NewObserver (0::nat))))) 1 = None \<and>
   \<not> index_live (obs (run [Engine Tick, Engine (Failed 404),
       Engine Tick, Engine (Header ''h100'' 100), Engine (BlockHashIs ''h100''),
       Engine (SubsOrder []), Engine (Ops [[''opA'']]), Engine (RecentOrder []),
       Engine Tick, Engine Tick,
       CallSubscribe ''opA'' (\<lambda>a w. (True, w))]
       (listenBlocks_start (NewObserver (0::nat)))))"
    by (simp add: machine_defs index_live_def ran_def)
  have c: "watched (obs (run [CallSubscribe ''opA'' (\<lambda>a w. (fst (snd a) = - 1, w)), Engine Tick, Engine (Failed 404),
       Engine Tick, Engine (Header ''h100'' 100), Engine (BlockHashIs ''h100''),
       Engine (SubsOrder [1]), Engine (Ops [[''opA'']]), Engine (RecentOrder []),
       Engine Tick, Engine Tick,
       Engine Tick, Engine Tick, Engine (Header ''h101'' 101), Engine (BlockHashIs ''h101''),
       Engine (SubsOrder [1])]
       (listenBlocks_start (NewObserver (0::nat))))) ''opA'' = Some 1 \<and>
   subs (obs (run [CallSubscribe ''opA'' (\<lambda>a w. (fst (snd a) = - 1, w)), Engine Tick, Engine (Failed 404),
       Engine Tick, Engine (Header ''h100'' 100), Engine (BlockHashIs ''h100''),
       Engine (SubsOrder [1]), Engine (Ops [[''opA'']]), Engine (RecentOrder []),
       Engine Tick, Engine Tick,
       Engine Tick, Engine Tick, Engine (Header ''h101'' 101), Engine (BlockHashIs ''h101''),
       Engine (SubsOrder [1])]
       (listenBlocks_start (NewObserver (0::nat))))) 1 = None \<and>
   \<not> index_live (obs (run [CallSubscribe ''opA'' (\<lambda>a w. (fst (snd a) = - 1, w)), Engine Tick, Engine (Failed 404),
       Engine Tick, Engine (Header ''h100'' 100), Engine (BlockHashIs ''h100''),
       Engine (SubsOrder [1]), Engine (Ops [[''opA'']]), Engine (RecentOrder []),
       Engine Tick, Engine Tick,
       Engine Tick, Engine Tick, Engine (Header ''h101'' 101), Engine (BlockHashIs ''h101''),
       Engine (SubsOrder [1])]
       (listenBlocks_start (NewObserver (0::nat)))))"
    by (simp add: machine_defs index_live_def ran_def)
  from a b c show ?thesis by blast
qed

subsection \<open>The mode of the loop\<close>

lemma useEvents_engine_step: "\<not> useEvents s \<Longrightarrow> \<not> useEvents (engine_step a s)"
  by (cases "at s"; cases a)
    (simp_all add: engine_step_def Let_def new_head_def wait_or_return_def head_source_def
      split: list.splits)

lemma polling_engine_step:
  "polling s \<Longrightarrow> polling (engine_step a s) \<and>
     (\<exists>xs. rpcs (engine_step a s) = rpcs s @ xs \<and> set xs \<subseteq> poll_rpcs)"
  by (cases "at s"; cases a)
    (simp_all add: polling_def poll_rpcs_def engine_step_def Let_def new_head_def
      wait_or_return_def head_source_def split: list.splits)

lemma polling_do_event:
  "polling s \<Longrightarrow> polling (do_event e s) \<and>
     (\<exists>xs. rpcs (do_event e s) = rpcs s @ xs \<and> set xs \<subseteq> poll_rpcs)"
  using polling_engine_step [of s]
  by (cases e) (simp_all add: do_event_def polling_def)

lemma polling_run:
  "polling s \<Longrightarrow> polling (run evs s) \<and>
     (\<exists>xs. rpcs (run evs s) = rpcs s @ xs \<and> set xs \<subseteq> poll_rpcs)"
proof (induction evs arbitrary: s)
  case Nil
  then show ?case by (simp add: run_def)
next
  case (Cons e evs)
  from polling_do_event [OF Cons.prems, of e] obtain xs where
    p: "polling (do_event e s)" and x: "rpcs (do_event e s) = rpcs s @ xs" "set xs \<subseteq> poll_rpcs"
    by blast
  from Cons.IH [OF p] obtain ys where
    q: "polling (run evs (do_event e s))" and
    y: "rpcs (run evs (do_event e s)) = rpcs (do_event e s) @ ys" "set ys \<subseteq> poll_rpcs"
    by blast
  have r: "run (e # evs) s = run evs (do_event e s)" by (simp add: run_def)
  from x y have "rpcs (run (e # evs) s) = rpcs s @ (xs @ ys) \<and> set (xs @ ys) \<subseteq> poll_rpcs"
    by (simp add: r)
  with q r show ?case by metis
qed

lemma useEvents_run: "\<not> useEvents s \<Longrightarrow> \<not> useEvents (run evs s)"
  unfolding run_def
proof (induction evs arbitrary: s)
  case Nil
  then show ?case by simp
next
  case (Cons e evs)
  have "\<not> useEvents (do_event e s)"
    using Cons.prems useEvents_engine_step [of s] by (cases e) (simp_all add: do_event_def)
  then show ?case using Cons.IH by simp
qed

lemma open_unsupported:
  "at s = AtOpen \<Longrightarrow> polling (engine_step (Failed 404) s) \<and> \<not> mon (engine_step (Failed 404) s) \<and>
     at (engine_step (Failed 404) s) = AtTop \<and>
     rpcs (engine_step (Failed 404) s) = rpcs s @ [MonitorBlockHeader]"
  by (simp add: engine_step_def polling_def Let_def)

text \<open>
  C6. When the call that opens the header stream fails with \<open>ErrorStatus(err) = 404\<close>,
  \<open>useEvents\<close> is false from then on: after any further schedule of loop steps and
  calls of the observer's methods, the loop is neither about to open a stream nor about
  to receive from one, and every call made to the client since the failed one is
  \<open>GetTipHeader\<close>, \<open>GetBlockHash\<close> or \<open>GetBlockOperationHashes\<close>: no stream is opened
  again and every head comes from polling. No step sets \<open>useEvents\<close> back to true.
\<close>

theorem mode_fallback_one_way:
  "(at s = AtOpen \<longrightarrow>
      \<not> useEvents (run evs (engine_step (Failed 404) s)) \<and>
      at (run evs (engine_step (Failed 404) s)) \<noteq> AtOpen \<and>
      at (run evs (engine_step (Failed 404) s)) \<noteq> AtRecv \<and>
      (\<exists>xs. rpcs (run evs (engine_step (Failed 404) s)) = rpcs s @ MonitorBlockHeader # xs \<and>
            set xs \<subseteq> {GetTipHeader, GetBlockHash, GetBlockOperationHashes})) \<and>
   (\<not> useEvents s \<longrightarrow> \<not> useEvents (run evs s))"
proof (intro conjI impI)
  assume a: "at s = AtOpen"
  let ?t = "engine_step (Failed 404) s"
  from open_unsupported [OF a] have p: "polling ?t" and r: "rpcs ?t = rpcs s @ [MonitorBlockHeader]"
    by simp_all
  from polling_run [OF p, of evs] obtain xs where
    q: "polling (run evs ?t)" and x: "rpcs (run evs ?t) = rpcs ?t @ xs" "set xs \<subseteq> poll_rpcs"
    by blast
  from q show "\<not> useEvents (run evs ?t)" by (simp add: polling_def)
  from q show "at (run evs ?t) \<noteq> AtOpen" by (simp add: polling_def)
  from q show "at (run evs ?t) \<noteq> AtRecv" by (simp add: polling_def)
  from x r have "rpcs (run evs ?t) = rpcs s @ MonitorBlockHeader # xs \<and>
      set xs \<subseteq> {GetTipHeader, GetBlockHash, GetBlockOperationHashes}"
    by (simp add: poll_rpcs_def)
  then show "\<exists>xs. rpcs (run evs ?t) = rpcs s @ MonitorBlockHeader # xs \<and>
      set xs \<subseteq> {GetTipHeader, GetBlockHash, GetBlockOperationHashes}" by blast
next
  assume "\<not> useEvents s"
  then show "\<not> useEvents (run evs s)" by (rule useEvents_run)
qed

theorem mode_fallback_one_way_witness:
  "at (run [Engine Tick] (listenBlocks_start (NewObserver (0::nat)))) = AtOpen \<and>
   rpcs (run [Engine Tick, Engine (Header ''h100'' 100), Engine (BlockHashIs ''h100''),
              Engine (SubsOrder []), Engine (Failed 500), Engine Tick, Engine (Header ''h100'' 100)]
          (engine_step (Failed 404) (run [Engine Tick] (listenBlocks_start (NewObserver (0::nat))))))
     = [MonitorBlockHeader, GetTipHeader, GetBlockHash, GetBlockOperationHashes, GetTipHeader] \<and>
   \<not> useEvents (run [Engine Tick, Engine (Header ''h100'' 100), Engine (BlockHashIs ''h100''),
              Engine (SubsOrder []), Engine (Failed 500), Engine Tick, Engine (Header ''h100'' 100)]
          (engine_step (Failed 404) (run [Engine Tick] (listenBlocks_start (NewObserver (0::nat))))))"
proof -
  let ?s = "run [Engine Tick] (listenBlocks_start (NewObserver (0::nat)))"
  let ?evs = "[Engine Tick, Engine (Header ''h100'' 100), Engine (BlockHashIs ''h100''),
              Engine (SubsOrder []), Engine (Failed 500), Engine Tick, Engine (Header ''h100'' 100)]"
  have a: "at ?s = AtOpen" by (simp add: machine_defs)
  have r: "rpcs (run ?evs (engine_step (Failed 404) ?s))
     = [MonitorBlockHeader, GetTipHeader, GetBlockHash, GetBlockOperationHashes, GetTipHeader]"
    by (simp add: machine_defs)
  have u: "\<not> useEvents (engine_step (Failed 404) ?s)" by (simp add: machine_defs)
  from mode_fallback_one_way [of ?s ?evs] mode_fallback_one_way [of "engine_step (Failed 404) ?s" ?evs]
    a r u
  show ?thesis by simp
qed

subsection \<open>A cycle whose fetch fails\<close>















subsection \<open>The matched flag of a late subscriber\<close>

text \<open>
  C4 fails in the code on the path through \<open>Subscribe\<close>. Block \<open>h100\<close> holding \<open>opA\<close> has
  been processed when a caller subscribes to \<open>opA\<close> with a callback that never asks for
  removal. \<open>Subscribe\<close> reports the cached position and leaves \<open>matched\<close> false: the
  branch that sets it exists only in the pass over a fetched block. When the next block
  \<open>h101\<close> has been processed, the watcher is still there, still unmatched, and has
  received no call for \<open>h101\<close>.
\<close>

theorem late_subscriber_not_matched:
  "bestHash (obs (run [Engine Tick, Engine (Failed 404), Engine Tick, Engine (Header ''h100'' 100),
       Engine (BlockHashIs ''h100''), Engine (SubsOrder []), Engine (Ops [[''opA'']]),
       Engine (RecentOrder []), Engine Tick, Engine Tick,
       CallSubscribe ''opA'' (\<lambda>a w. (False, Suc w))]
       (listenBlocks_start (NewObserver (0::nat))))) = ''h100'' \<and>
   subs (obs (run [Engine Tick, Engine (Failed 404), Engine Tick, Engine (Header ''h100'' 100),
       Engine (BlockHashIs ''h100''), Engine (SubsOrder []), Engine (Ops [[''opA'']]),
       Engine (RecentOrder []), Engine Tick, Engine Tick,
       CallSubscribe ''opA'' (\<lambda>a w. (False, Suc w))]
       (listenBlocks_start (NewObserver (0::nat))))) 1 =
     Some \<lparr>id_sub = 1, cb = (\<lambda>a w. (False, Suc w)), oh = ''opA'', matched = False\<rparr> \<and>
   calls (obs (run [Engine Tick, Engine (Failed 404), Engine Tick, Engine (Header ''h100'' 100),
       Engine (BlockHashIs ''h100''), Engine (SubsOrder []), Engine (Ops [[''opA'']]),
       Engine (RecentOrder []), Engine Tick, Engine Tick,
       CallSubscribe ''opA'' (\<lambda>a w. (False, Suc w))]
       (listenBlocks_start (NewObserver (0::nat))))) = [(1, (''h100'', 100, 0, 0, False))] \<and>
   bestHash (obs (run [Engine Tick, Engine Tick, Engine (Header ''h101'' 101), Engine (BlockHashIs ''h101''),
       Engine (SubsOrder [1]), Engine (Ops []), Engine (RecentOrder [''opA'']), Engine Tick,
       Engine Tick, Engine Tick]
     (run [Engine Tick, Engine (Failed 404), Engine Tick, Engine (Header ''h100'' 100),
       Engine (BlockHashIs ''h100''), Engine (SubsOrder []), Engine (Ops [[''opA'']]),
       Engine (RecentOrder []), Engine Tick, Engine Tick,
       CallSubscribe ''opA'' (\<lambda>a w. (False, Suc w))]
       (listenBlocks_start (NewObserver (0::nat)))))) = ''h101'' \<and>
   subs (obs (run [Engine Tick, Engine Tick, Engine (Header ''h101'' 101), Engine (BlockHashIs ''h101''),
       Engine (SubsOrder [1]), Engine (Ops []), Engine (RecentOrder [''opA'']), Engine Tick,
       Engine Tick, Engine Tick]
     (run [Engine Tick, Engine (Failed 404), Engine Tick, Engine (Header ''h100'' 100),
       Engine (BlockHashIs ''h100''), Engine (SubsOrder []), Engine (Ops [[''opA'']]),
       Engine (RecentOrder []), Engine Tick, Engine Tick,
       CallSubscribe ''opA'' (\<lambda>a w. (False, Suc w))]
       (listenBlocks_start (NewObserver (0::nat)))))) 1 =
     Some \<lparr>id_sub = 1, cb = (\<lambda>a w. (False, Suc w)), oh = ''opA'', matched = False\<rparr> \<and>
   calls (obs (run [Engine Tick, Engine Tick, Engine (Header ''h101'' 101), Engine (BlockHashIs ''h101''),
       Engine (SubsOrder [1]), Engine (Ops []), Engine (RecentOrder [''opA'']), Engine Tick,
       Engine Tick, Engine Tick]
     (run [Engine Tick, Engine (Failed 404), Engine Tick, Engine (Header ''h100'' 100),
       Engine (BlockHashIs ''h100''), Engine (SubsOrder []), Engine (Ops [[''opA'']]),
       Engine (RecentOrder []), Engine Tick, Engine Tick,
       CallSubscribe ''opA'' (\<lambda>a w. (False, Suc w))]
       (listenBlocks_start (NewObserver (0::nat)))))) = [(1, (''h100'', 100, 0, 0, False))]"
proof -
  let ?S = "(run [Engine Tick, Engine (Failed 404), Engine Tick, Engine (Header ''h100'' 100),
       Engine (BlockHashIs ''h100''), Engine (SubsOrder []), Engine (Ops [[''opA'']]),
       Engine (RecentOrder []), Engine Tick, Engine Tick,
       CallSubscribe ''opA'' (\<lambda>a w. (False, Suc w))]
       (listenBlocks_start (NewObserver (0::nat))))"
  have s: "?S = \<lparr>obs = \<lparr>subs = [1 \<mapsto> \<lparr>id_sub = 1, cb = (\<lambda>a w. (False, Suc w)), oh = ''opA'', matched = False\<rparr>],
        watched = [''opA'' \<mapsto> 1], recent = [''opA'' \<mapsto> (100, 0, 0)], seq = 1, ctx_done = False,
        bestHash = ''h100'', bestHeight = 100, world = 1,
        calls = [(1, (''h100'', 100, 0, 0, False))]\<rparr>,
      mon = False, useEvents = False, firstLoop = False, at = AtPollWait,
      rpcs = [MonitorBlockHeader, GetTipHeader, GetBlockHash, GetBlockOperationHashes]\<rparr>"
    by (simp add: machine_defs)
  have a: "bestHash (obs ?S) = ''h100'' \<and> subs (obs ?S) 1 = Some \<lparr>id_sub = 1, cb = (\<lambda>a w. (False, Suc w)), oh = ''opA'', matched = False\<rparr> \<and>
      calls (obs ?S) = [(1, (''h100'', 100, 0, 0, False))]"
    unfolding s by simp
  have b: "bestHash (obs (run [Engine Tick, Engine Tick, Engine (Header ''h101'' 101), Engine (BlockHashIs ''h101''),
       Engine (SubsOrder [1]), Engine (Ops []), Engine (RecentOrder [''opA'']), Engine Tick,
       Engine Tick, Engine Tick] ?S)) = ''h101'' \<and>
      subs (obs (run [Engine Tick, Engine Tick, Engine (Header ''h101'' 101), Engine (BlockHashIs ''h101''),
       Engine (SubsOrder [1]), Engine (Ops []), Engine (RecentOrder [''opA'']), Engine Tick,
       Engine Tick, Engine Tick] ?S)) 1 = Some \<lparr>id_sub = 1, cb = (\<lambda>a w. (False, Suc w)), oh = ''opA'', matched = False\<rparr> \<and>
      calls (obs (run [Engine Tick, Engine Tick, Engine (Header ''h101'' 101), Engine (BlockHashIs ''h101''),
       Engine (SubsOrder [1]), Engine (Ops []), Engine (RecentOrder [''opA'']), Engine Tick,
       Engine Tick, Engine Tick] ?S)) = [(1, (''h100'', 100, 0, 0, False))]"
    unfolding s by (simp add: machine_defs)
  from a b show ?thesis by simp
qed

subsection \<open>The cache and the lock\<close>

text \<open>
  C8 fails in the code. The loop that clears the cache stands before \<open>m.mu.Lock()\<close>, so
  each \<open>delete(m.recent, n)\<close> is a step of its own and callers can run between two of
  them. Block \<open>h100\<close> held \<open>opA\<close> and \<open>opB\<close>; the cycle for block \<open>h101\<close> has fetched its
  operations and deleted \<open>opA\<close> from the cache, \<open>opB\<close> is still to be deleted. Two callers
  subscribe now, to \<open>opA\<close> and to \<open>opB\<close>: the cache they read is neither that of \<open>h100\<close>
  nor that of \<open>h101\<close>, and only the subscriber of \<open>opB\<close> gets the report of its
  inclusion in \<open>h100\<close>.
\<close>

theorem cache_cleared_outside_lock:
  "at (run [Engine Tick, Engine (Failed 404), Engine Tick, Engine (Header ''h100'' 100),
       Engine (BlockHashIs ''h100''), Engine (SubsOrder []), Engine (Ops [[''opA'', ''opB'']]),
       Engine (RecentOrder []), Engine Tick, Engine Tick, Engine Tick, Engine Tick,
       Engine (Header ''h101'' 101), Engine (BlockHashIs ''h101''), Engine (SubsOrder []),
       Engine (Ops [[''opC'']]), Engine (RecentOrder [''opA'', ''opB''])]
       (listenBlocks_start (NewObserver (0::nat)))) = AtClear ''h101'' 101 [[''opC'']] [''opA'', ''opB''] \<and>
   recent (obs (run [Engine Tick, Engine (Failed 404), Engine Tick, Engine (Header ''h100'' 100),
       Engine (BlockHashIs ''h100''), Engine (SubsOrder []), Engine (Ops [[''opA'', ''opB'']]),
       Engine (RecentOrder []), Engine Tick, Engine Tick, Engine Tick, Engine Tick,
       Engine (Header ''h101'' 101), Engine (BlockHashIs ''h101''), Engine (SubsOrder []),
       Engine (Ops [[''opC'']]), Engine (RecentOrder [''opA'', ''opB''])]
       (listenBlocks_start (NewObserver (0::nat))))) ''opA'' = Some (100, 0, 0) \<and>
   recent (obs (run [Engine Tick, Engine (Failed 404), Engine Tick, Engine (Header ''h100'' 100),
       Engine (BlockHashIs ''h100''), Engine (SubsOrder []), Engine (Ops [[''opA'', ''opB'']]),
       Engine (RecentOrder []), Engine Tick, Engine Tick, Engine Tick, Engine Tick,
       Engine (Header ''h101'' 101), Engine (BlockHashIs ''h101''), Engine (SubsOrder []),
       Engine (Ops [[''opC'']]), Engine (RecentOrder [''opA'', ''opB''])]
       (listenBlocks_start (NewObserver (0::nat))))) ''opB'' = Some (100, 0, 1) \<and>
   at (engine_step Tick
     (run [Engine Tick, Engine (Failed 404), Engine Tick, Engine (Header ''h100'' 100),
       Engine (BlockHashIs ''h100''), Engine (SubsOrder []), Engine (Ops [[''opA'', ''opB'']]),
       Engine (RecentOrder []), Engine Tick, Engine Tick, Engine Tick, Engine Tick,
       Engine (Header ''h101'' 101), Engine (BlockHashIs ''h101''), Engine (SubsOrder []),
       Engine (Ops [[''opC'']]), Engine (RecentOrder [''opA'', ''opB''])]
       (listenBlocks_start (NewObserver (0::nat))))) = AtClear ''h101'' 101 [[''opC'']] [''opB''] \<and>
   recent (obs (engine_step Tick
     (run [Engine Tick, Engine (Failed 404), Engine Tick, Engine (Header ''h100'' 100),
       Engine (BlockHashIs ''h100''), Engine (SubsOrder []), Engine (Ops [[''opA'', ''opB'']]),
       Engine (RecentOrder []), Engine Tick, Engine Tick, Engine Tick, Engine Tick,
       Engine (Header ''h101'' 101), Engine (BlockHashIs ''h101''), Engine (SubsOrder []),
       Engine (Ops [[''opC'']]), Engine (RecentOrder [''opA'', ''opB''])]
       (listenBlocks_start (NewObserver (0::nat)))))) ''opA'' = None \<and>
   recent (obs (engine_step Tick
     (run [Engine Tick, Engine (Failed 404), Engine Tick, Engine (Header ''h100'' 100),
       Engine (BlockHashIs ''h100''), Engine (SubsOrder []), Engine (Ops [[''opA'', ''opB'']]),
       Engine (RecentOrder []), Engine Tick, Engine Tick, Engine Tick, Engine Tick,
       Engine (Header ''h101'' 101), Engine (BlockHashIs ''h101''), Engine (SubsOrder []),
       Engine (Ops [[''opC'']]), Engine (RecentOrder [''opA'', ''opB''])]
       (listenBlocks_start (NewObserver (0::nat)))))) ''opB'' = Some (100, 0, 1) \<and>
   calls (obs (run [CallSubscribe ''opA'' (\<lambda>a w. (False, Suc w)), CallSubscribe ''opB'' (\<lambda>a w. (False, Suc w))]
     (engine_step Tick
     (run [Engine Tick, Engine (Failed 404), Engine Tick, Engine (Header ''h100'' 100),
       Engine (BlockHashIs ''h100''), Engine (SubsOrder []), Engine (Ops [[''opA'', ''opB'']]),
       Engine (RecentOrder []), Engine Tick, Engine Tick, Engine Tick, Engine Tick,
       Engine (Header ''h101'' 101), Engine (BlockHashIs ''h101''), Engine (SubsOrder []),
       Engine (Ops [[''opC'']]), Engine (RecentOrder [''opA'', ''opB''])]
       (listenBlocks_start (NewObserver (0::nat))))))) = [(2, (''h100'', 100, 0, 1, False))]"
proof -
  let ?S = "(run [Engine Tick, Engine (Failed 404), Engine Tick, Engine (Header ''h100'' 100),
       Engine (BlockHashIs ''h100''), Engine (SubsOrder []), Engine (Ops [[''opA'', ''opB'']]),
       Engine (RecentOrder []), Engine Tick, Engine Tick, Engine Tick, Engine Tick,
       Engine (Header ''h101'' 101), Engine (BlockHashIs ''h101''), Engine (SubsOrder []),
       Engine (Ops [[''opC'']]), Engine (RecentOrder [''opA'', ''opB''])]
       (listenBlocks_start (NewObserver (0::nat))))"
  have s: "?S = \<lparr>obs = \<lparr>subs = Map.empty, watched = Map.empty,
        recent = [''opA'' \<mapsto> (100, 0, 0), ''opB'' \<mapsto> (100, 0, 1)], seq = 0, ctx_done = False,
        bestHash = ''h100'', bestHeight = 100, world = 0, calls = []\<rparr>,
      mon = False, useEvents = False, firstLoop = False,
      at = AtClear ''h101'' 101 [[''opC'']] [''opA'', ''opB''],
      rpcs = [MonitorBlockHeader, GetTipHeader, GetBlockHash, GetBlockOperationHashes,
              GetTipHeader, GetBlockHash, GetBlockOperationHashes]\<rparr>"
    by (simp add: machine_defs)
  have a: "at ?S = AtClear ''h101'' 101 [[''opC'']] [''opA'', ''opB''] \<and>
      recent (obs ?S) ''opA'' = Some (100, 0, 0) \<and> recent (obs ?S) ''opB'' = Some (100, 0, 1)"
    unfolding s by simp
  have b: "at (engine_step Tick ?S) = AtClear ''h101'' 101 [[''opC'']] [''opB''] \<and>
      recent (obs (engine_step Tick ?S)) ''opA'' = None \<and>
      recent (obs (engine_step Tick ?S)) ''opB'' = Some (100, 0, 1)"
    unfolding s by (simp add: machine_defs)
  have c: "calls (obs (run [CallSubscribe ''opA'' (\<lambda>a w. (False, Suc w)), CallSubscribe ''opB'' (\<lambda>a w. (False, Suc w))]
      (engine_step Tick ?S))) = [(2, (''h100'', 100, 0, 1, False))]"
    unfolding s by (simp add: machine_defs)
  from a b c show ?thesis by simp
qed

section \<open>Properties of the configuration functions\<close>

text \<open>
  Once both account lists are non-empty, \<open>UpdateTaqContext\<close> returns no error, whatever
  \<open>tezos.ParsePrivateKey\<close> answers for the secret keys.
\<close>

lemma UpdateTaqContext_ignores_key_errors:
  "Accounts (TaqConfig_set taqConfigSet) \<noteq> [] \<Longrightarrow>
   Accounts_env (TaqConfigEnv_set taqConfigSet) \<noteq> [] \<Longrightarrow>
   fst (UpdateTaqContext x ctx taqConfigSet) = None"
  by (cases "Accounts_env (TaqConfigEnv_set taqConfigSet)")
     (auto simp: UpdateTaqContext_def split: prod.splits)

text \<open>
  C7 fails in the code for a malformed secret key. Both flags are given, both documents
  decode, and the one account \<open>bob\<close> has the secret key \<open>unencrypted:garbage\<close>, which
  \<open>tezos.ParsePrivateKey\<close> rejects. \<open>NewTaqContext\<close> returns a context and no error: the
  error is printed, and the account is registered, as the base account too, with the
  key and the address the failed parse left.
\<close>

theorem malformed_secret_key_accepted:
  "NewTaqContext
     \<lparr>Unmarshal = (\<lambda>s. if s = ''CFG''
        then Some \<lparr>Version = ''v1'', Language = ''en'', ArtifactsDir = ''artifacts'',
                   ContractsDir = ''contracts'',
                   Accounts = [(''bob'', \<lparr>Balance = \<lparr>Amount = ''3000'', Units = ''tez''\<rparr>\<rparr>)],
                   EnvironmentDefault = ''development'', Environments = [], Plugins = []\<rparr>
        else None),
      Unmarshal_env = (\<lambda>s. if s = ''ENV''
        then Some \<lparr>Accounts_env = [(''bob'', \<lparr>EncryptedKey = '''', PublicKeyHash = ''tz1bob'',
                                          SecretKey = ''unencrypted:garbage''\<rparr>)],
                   AccountDefault = ''bob'', RpcUrl_env = ''http://localhost:20000''\<rparr>
        else None),
      ParsePrivateKey = (\<lambda>s. if s = ''edsk1'' then (1::nat, None)
                              else (0, Some ''tezos: invalid private key'')),
      Address_of = (\<lambda>k. k),
      String_of = (\<lambda>a::nat. ''tz1zero''),
      NewContext = \<lparr>BaseAccount = \<lparr>Address = 0, PrivateKey = 0, Id = 0\<rparr>,
                    Accounts_ctx = Map.empty, Variables = []\<rparr>,
      AddVariable = (\<lambda>k v vs. vs @ [(k, v)])\<rparr>
     [''tzcompose'', ''-taqconfig'', ''CFG'', ''-taqconfigenv'', ''ENV''] =
   Value (Inr ([''tezos: invalid private key''],
     \<lparr>BaseAccount = \<lparr>Address = 0, PrivateKey = 0, Id = - 1\<rparr>,
      Accounts_ctx = [0 \<mapsto> \<lparr>Address = 0, PrivateKey = 0, Id = - 1\<rparr>],
      Variables = [(''bob'', ''tz1zero'')]\<rparr>))"
  by (simp add: NewTaqContext_def getFlagValue_def names_flag_def HasPrefix_def TrimPrefix_def
      index_args_def ParseTaqConfig_def UpdateTaqContext_def mapTaqEnvAccountToContextAccount_def
      getAccountId_def isDefaultAccount_def Let_def)

end
